theory Spec2Isabelle
  imports Main
begin

section \<open>The page state read and written by \<open>src/js/post.js\<close>\<close>

text \<open>
  The three functions of \<open>$posts\<close> that drive the scroll engine (\<open>scroller\<close>,
  \<open>showTopic\<close>, \<open>catalogueHighlight\<close>) read and mutate the browser's document. The part
  of the document they touch is made explicit as a record, passed in and returned.

  Pixel quantities (\<open>window.pageYOffset\<close>, \<open>offsetTop\<close>, the heights returned by
  \<open>getBoundingClientRect\<close>) are integers here, as in the data model of the specification;
  the source only adds, subtracts and compares them.

  A \<open>classList\<close> is a set of class names: \<open>add\<close>, \<open>remove\<close> and \<open>contains\<close> of a
  \<open>DOMTokenList\<close> do not depend on the order of the tokens.

  The table of contents is the list of the \<open>.toc a\<close> elements in document order. The
  source reads a link's \<open>href\<close> in two ways, and a link has a field for each.
  \<open>href_id\<close> is what line 112 computes from the resolved URL,
  \<open>decodeURI(link.href).split('#')[1]\<close>, as a string (\<open>undefined\<close> reads as the id
  \<open>undefined\<close> in \<open>getElementById\<close>); it is \<open>None\<close> when \<open>link.href\<close> is empty, the case
  line 111 skips. \<open>href_attr\<close> is the \<open>href\<close> attribute as written in the document, which
  the selector \<open>.toc a[href="#..."]\<close> of line 135 compares; it is \<open>None\<close> when the link
  has no such attribute. How the browser resolves the attribute to \<open>link.href\<close> is not
  modelled: a page may hold any pair of the two. Strings are byte strings, a character
  outside ASCII being its UTF-8 bytes; a link whose \<open>href\<close> makes \<open>decodeURI\<close> throw is
  not described. The links are the only elements below \<open>.toc\<close> that ever carry
  \<open>is-active\<close>.
  \<open>headings\<close> lists the elements of the document that have an id, in document order.
  \<open>toc_scrollTo\<close> is the trace of the calls \<open>tocContainer.scrollTo({top: t})\<close>: one entry
  \<open>t\<close> per call, the latest last.
\<close>

record heading =
  hid :: string
  offsetTop :: int

record toc_link =
  href_id :: "string option"
  href_attr :: "string option"
  link_offsetTop :: int
  link_classList :: "string set"

record page =
  pageYOffset :: int
  innerHeight :: int
  postTitle_offsetTop :: int
  postTitle_height :: int
  topic_classList :: "string set"
  headings :: "heading list"
  toc_links :: "toc_link list"
  toc_height :: int
  toc_scrollTo :: "int list"

text \<open>The object handed to every callback: the scroll event (an opaque handle) and the
  scroll offset captured by the listener.\<close>

record params =
  event :: nat
  beforeOffsetY :: int

text \<open>Reading a property of \<open>null\<close> throws a \<open>TypeError\<close>; nothing in the file catches it.\<close>

datatype js_error = TypeError

section \<open>\<open>showTopic\<close>\<close>

definition classList_remove :: "string \<Rightarrow> page \<Rightarrow> page" where
  "classList_remove c d = d\<lparr>topic_classList := topic_classList d - {c}\<rparr>"

definition classList_add :: "string \<Rightarrow> page \<Rightarrow> page" where
  "classList_add c d = d\<lparr>topic_classList := insert c (topic_classList d)\<rparr>"

definition classList_contains :: "string \<Rightarrow> page \<Rightarrow> bool" where
  "classList_contains c d = (c \<in> topic_classList d)"

text \<open>
  \<open>evt && evt.beforeOffsetY\<close> is \<open>undefined\<close> when \<open>showTopic\<close> is called without an
  argument; \<open>undefined - window.pageYOffset\<close> is then \<open>NaN\<close>, for which \<open>> 0\<close> and
  \<open>=== 0\<close> are false and \<open>!== 0\<close> is true. The difference is an \<open>int option\<close>, \<open>None\<close> being
  \<open>NaN\<close>.
\<close>

definition showTopic :: "params option \<Rightarrow> page \<Rightarrow> page" where
  "showTopic evt d =
    (let threshold = postTitle_offsetTop d + postTitle_height d in
     if pageYOffset d > threshold then
       (let delta = (case evt of None \<Rightarrow> None
                     | Some p \<Rightarrow> Some (beforeOffsetY p - pageYOffset d));
            isScrollToTop = (case delta of None \<Rightarrow> False | Some x \<Rightarrow> x > 0);
            d = classList_remove ''is-hidden-topic-bar'' d
        in if delta = Some 0 then
             (let d = classList_remove ''is-switch-post-title'' d;
                  d = classList_remove ''is-show-post-title'' d;
                  d = classList_remove ''immediately-show'' d
              in if classList_contains ''is-show-scrollToTop-tips'' d then
                   (let d = classList_remove ''is-show-scrollToTop-tips'' d
                    in classList_add ''is-flash-scrollToTop-tips'' d)
                 else classList_add ''immediately-show'' d)
           else if isScrollToTop then
             (if pageYOffset d > innerHeight d * 2 then
                (let d = classList_remove ''immediately-show'' d;
                     d = classList_remove ''is-show-post-title'' d;
                     d = classList_remove ''is-switch-post-title'' d;
                     d = classList_remove ''is-flash-scrollToTop-tips'' d
                 in classList_add ''is-show-scrollToTop-tips'' d)
              else
                (let d = classList_remove ''immediately-show'' d;
                     d = classList_remove ''is-show-post-title'' d;
                     d = classList_remove ''is-show-scrollToTop-tips'' d;
                     d = classList_remove ''is-flash-scrollToTop-tips'' d
                 in classList_add ''is-switch-post-title'' d))
           else if delta \<noteq> Some 0 then
             (let d = classList_remove ''immediately-show'' d;
                  d = classList_remove ''is-switch-post-title'' d;
                  d = classList_remove ''is-show-scrollToTop-tips'' d;
                  d = classList_remove ''is-flash-scrollToTop-tips'' d
              in classList_add ''is-show-post-title'' d)
           else d)
     else
       (let d = classList_remove ''is-flash-scrollToTop-tips'' d;
            d = classList_remove ''is-show-scrollToTop-tips'' d;
            d = classList_remove ''is-switch-post-title'' d;
            d = classList_remove ''is-show-post-title'' d;
            d = classList_remove ''immediately-show'' d
        in classList_add ''is-hidden-topic-bar'' d))"

text \<open>The six class names \<open>showTopic\<close> adds or removes: five variants and the hidden
  marker.\<close>

definition topic_markers :: "string set" where
  "topic_markers = {''immediately-show'', ''is-switch-post-title'', ''is-show-post-title'',
     ''is-show-scrollToTop-tips'', ''is-flash-scrollToTop-tips'', ''is-hidden-topic-bar''}"

text \<open>A sequence of dispatches: before each one the window has scrolled to a new offset,
  then \<open>showTopic\<close> receives the snapshot.\<close>

fun showTopic_run :: "(int \<times> params) list \<Rightarrow> page \<Rightarrow> page" where
  "showTopic_run [] d = d"
| "showTopic_run ((y, p) # rest) d = showTopic_run rest (showTopic (Some p) (d\<lparr>pageYOffset := y\<rparr>))"

section \<open>\<open>catalogueHighlight\<close>\<close>

definition spacing :: int where
  "spacing = 60"

definition activeClassName :: string where
  "activeClassName = ''is-active''"

text \<open>\<open>document.getElementById\<close>: the first element with the id, or \<open>null\<close>.\<close>

definition getElementById :: "string \<Rightarrow> page \<Rightarrow> heading option" where
  "getElementById i d = find (\<lambda>h. hid h = i) (headings d)"

text \<open>\<open>document.querySelector\<close> returns the first match in document order or \<open>null\<close>;
  an element of the table of contents is named by its position in \<open>toc_links\<close>.\<close>

fun first_index :: "('a \<Rightarrow> bool) \<Rightarrow> 'a list \<Rightarrow> nat option" where
  "first_index P [] = None"
| "first_index P (x # xs) = (if P x then Some 0 else map_option Suc (first_index P xs))"

definition querySelector_active :: "page \<Rightarrow> nat option" where
  "querySelector_active d = first_index (\<lambda>l. activeClassName \<in> link_classList l) (toc_links d)"

text \<open>\<open>encodeURI\<close>: letters, digits and the characters \<open>; / ? : @ & = + $ , #\<close> and
  \<open>- _ . ! ~ * ' ( )\<close> stay, every other byte becomes \<open>%\<close> and two upper-case hexadecimal
  digits.\<close>

definition uri_unescaped :: "char \<Rightarrow> bool" where
  "uri_unescaped c =
     (let n = of_char c :: nat in
      (65 \<le> n \<and> n \<le> 90) \<or> (97 \<le> n \<and> n \<le> 122) \<or> (48 \<le> n \<and> n \<le> 57)
      \<or> c \<in> set '';/?:@&=+$,#-_.!~*()'' \<or> c = CHR 0x27)"

definition hex_digit :: "nat \<Rightarrow> char" where
  "hex_digit n = ''0123456789ABCDEF'' ! n"

fun encodeURI :: "string \<Rightarrow> string" where
  "encodeURI [] = []"
| "encodeURI (c # cs) =
     (if uri_unescaped c then [c]
      else [CHR ''%'', hex_digit (of_char c div 16), hex_digit (of_char c mod 16)])
     @ encodeURI cs"

text \<open>\<open>document.querySelector('.toc a[href="#' + encodeURI(id) + '"]')\<close>: the first link
  whose \<open>href\<close> attribute is \<open>#\<close> followed by the encoded id.\<close>

definition querySelector_href :: "string \<Rightarrow> page \<Rightarrow> nat option" where
  "querySelector_href i d =
     first_index (\<lambda>l. href_attr l = Some (''#'' @ encodeURI i)) (toc_links d)"

definition link_classList_remove :: "nat \<Rightarrow> string \<Rightarrow> page \<Rightarrow> page" where
  "link_classList_remove n c d =
     d\<lparr>toc_links := (toc_links d)[n := (toc_links d ! n)
          \<lparr>link_classList := link_classList (toc_links d ! n) - {c}\<rparr>]\<rparr>"

definition link_classList_add :: "nat \<Rightarrow> string \<Rightarrow> page \<Rightarrow> page" where
  "link_classList_add n c d =
     d\<lparr>toc_links := (toc_links d)[n := (toc_links d ! n)
          \<lparr>link_classList := insert c (link_classList (toc_links d ! n))\<rparr>]\<rparr>"

definition tocContainer_scrollTo :: "int \<Rightarrow> page \<Rightarrow> page" where
  "tocContainer_scrollTo t d = d\<lparr>toc_scrollTo := toc_scrollTo d @ [t]\<rparr>"

text \<open>The \<open>directory.forEach\<close> that fills \<open>contentTocList\<close>: a link without \<open>href\<close> is
  skipped, every other link pushes what \<open>getElementById\<close> returns, \<open>null\<close> included.\<close>

fun contentTocList :: "toc_link list \<Rightarrow> page \<Rightarrow> heading option list" where
  "contentTocList [] d = []"
| "contentTocList (link # directory) d =
     (case href_id link of
        None \<Rightarrow> contentTocList directory d
      | Some i \<Rightarrow> getElementById i d # contentTocList directory d)"

text \<open>The body of the \<open>for\<close> loop after the \<open>continue\<close> test (lines 126 to 148), for a
  heading that is a candidate. \<open>direc.classList\<close> on a \<open>null\<close> \<open>direc\<close> throws.\<close>

definition toc_body ::
  "heading \<Rightarrow> heading option \<Rightarrow> page \<Rightarrow> js_error + (heading \<times> page)" where
  "toc_body currentTopic activeTopicEl d =
    (let activeTopicEl =
           (case activeTopicEl of
              None \<Rightarrow> currentTopic
            | Some a \<Rightarrow> if offsetTop currentTopic + spacing \<ge> offsetTop a - spacing
                        then currentTopic else a);
         d = (case querySelector_active d of
                None \<Rightarrow> d
              | Some beforeActiveEl \<Rightarrow> link_classList_remove beforeActiveEl activeClassName d)
     in case querySelector_href (hid activeTopicEl) d of
          None \<Rightarrow> Inl TypeError
        | Some direc \<Rightarrow>
            (let d = link_classList_add direc activeClassName d;
                 tocContainerHeight = toc_height d
             in if link_offsetTop (toc_links d ! direc) \<ge> tocContainerHeight - spacing
                then Inr (activeTopicEl,
                       tocContainer_scrollTo
                         (link_offsetTop (toc_links d ! direc) + 100 - tocContainerHeight) d)
                else Inr (activeTopicEl, tocContainer_scrollTo 0 d)))"

text \<open>The \<open>for\<close> loop over \<open>contentTocList\<close>, with the local \<open>activeTopicEl\<close> and the page
  as loop state. \<open>currentTopic.offsetTop\<close> on a \<open>null\<close> entry throws. The loop returns the
  final \<open>activeTopicEl\<close> beside the page, so that the choice of the scan can be stated.\<close>

fun toc_loop ::
  "heading option list \<Rightarrow> int \<Rightarrow> heading option \<Rightarrow> page \<Rightarrow> js_error + (heading option \<times> page)"
  where
  "toc_loop [] scrollTop activeTopicEl d = Inr (activeTopicEl, d)"
| "toc_loop (None # rest) scrollTop activeTopicEl d = Inl TypeError"
| "toc_loop (Some currentTopic # rest) scrollTop activeTopicEl d =
     (if offsetTop currentTopic > scrollTop + spacing div 2
      then toc_loop rest scrollTop activeTopicEl d
      else (case toc_body currentTopic activeTopicEl d of
              Inl e \<Rightarrow> Inl e
            | Inr (a, d') \<Rightarrow> toc_loop rest scrollTop (Some a) d'))"

text \<open>The function \<open>catalogueHighlight\<close> returns, run on the current page. The link
  elements held in \<open>directory\<close> are those of the page.\<close>

definition toc_scan :: "page \<Rightarrow> js_error + (heading option \<times> page)" where
  "toc_scan d = toc_loop (contentTocList (toc_links d) d) (pageYOffset d) None d"

definition catalogueHighlight_pass :: "page \<Rightarrow> js_error + page" where
  "catalogueHighlight_pass d = (case toc_scan d of Inl e \<Rightarrow> Inl e | Inr (a, d') \<Rightarrow> Inr d')"

text \<open>\<open>catalogueHighlight\<close> itself: \<open>false\<close> when the page has no link in its table of
  contents, the pass otherwise.\<close>

definition catalogueHighlight :: "page \<Rightarrow> (page \<Rightarrow> js_error + page) option" where
  "catalogueHighlight d =
     (if length (toc_links d) = 0 then None else Some catalogueHighlight_pass)"

text \<open>Plain last-candidate selection, as the comparison point for the scan: the last
  heading whose offset does not exceed the scroll offset plus half the spacing.\<close>

definition last_candidate :: "int \<Rightarrow> heading list \<Rightarrow> heading option" where
  "last_candidate scrollTop hs =
     (case filter (\<lambda>h. offsetTop h \<le> scrollTop + spacing div 2) hs of
        [] \<Rightarrow> None
      | c # cs \<Rightarrow> Some (last (c # cs)))"

section \<open>\<open>scroller\<close>\<close>

text \<open>
  A \<open>Scroller\<close> holds its callbacks. The callbacks act on a state \<open>'s\<close> of their own.
  The window has a clock, a scroll offset and the queue of the functions given to
  \<open>setTimeout\<close>; such a function is the closure of lines 17 to 25, described by when it
  fires and by the \<open>event\<close> and \<open>beforeOffsetY\<close> it has captured.
\<close>

record 's scroller =
  callbacks :: "(params \<Rightarrow> 's \<Rightarrow> 's) list"

record timeout =
  fire_at :: nat
  t_event :: nat
  t_beforeOffsetY :: int

record 's window =
  clock :: nat
  win_pageYOffset :: int
  timeouts :: "timeout list"
  observed :: 's

definition setTimeout :: "nat \<Rightarrow> int \<Rightarrow> nat \<Rightarrow> 's window \<Rightarrow> 's window" where
  "setTimeout ev captured delay w =
     w\<lparr>timeouts := timeouts w @ [\<lparr>fire_at = clock w + delay, t_event = ev, t_beforeOffsetY = captured\<rparr>]\<rparr>"

text \<open>The listener of \<open>bindScrollEvent\<close> (lines 10 to 26). \<open>wait\<close> is a variable of the
  listener's body: every call starts with \<open>var wait = false\<close>.\<close>

definition scroll_listener :: "nat \<Rightarrow> 's window \<Rightarrow> 's window" where
  "scroll_listener ev w =
     (let wait = False;
          beforeOffsetY = win_pageYOffset w
      in if wait then w
         else (let wait = True in setTimeout ev beforeOffsetY 150 w))"

text \<open>The function given to \<open>setTimeout\<close>, when it fires: every callback receives
  \<open>params\<close>, in the order of \<open>callbacks\<close>. Its last statement \<open>wait = false\<close> writes the
  variable of the listener call that created it, which nothing reads afterwards.\<close>

definition dispatch :: "'s scroller \<Rightarrow> timeout \<Rightarrow> 's \<Rightarrow> 's" where
  "dispatch that t s =
     (let params = \<lparr>event = t_event t, beforeOffsetY = t_beforeOffsetY t\<rparr>
      in fold (\<lambda>func. func params) (callbacks that) s)"

text \<open>What happens to the window: the user scrolls to an offset, which raises a scroll
  event, or time passes and the timeouts that are due fire, oldest first.\<close>

datatype input = Scroll nat int | Elapse nat

definition fire_due :: "'s scroller \<Rightarrow> 's window \<Rightarrow> 's window" where
  "fire_due that w =
     w\<lparr>timeouts := filter (\<lambda>t. fire_at t > clock w) (timeouts w),
       observed := fold (dispatch that) (filter (\<lambda>t. fire_at t \<le> clock w) (timeouts w)) (observed w)\<rparr>"

fun window_step :: "'s scroller \<Rightarrow> input \<Rightarrow> 's window \<Rightarrow> 's window" where
  "window_step that (Scroll ev y) w = scroll_listener ev (w\<lparr>win_pageYOffset := y\<rparr>)"
| "window_step that (Elapse n) w = fire_due that (w\<lparr>clock := clock w + n\<rparr>)"

definition window_run :: "'s scroller \<Rightarrow> input list \<Rightarrow> 's window \<Rightarrow> 's window" where
  "window_run that ins w = fold (window_step that) ins w"

text \<open>An observer that records every snapshot it is called with.\<close>

definition recorder :: "params \<Rightarrow> params list \<Rightarrow> params list" where
  "recorder p log = log @ [p]"

section \<open>Concrete pages\<close>

definition topic_page :: page where
  "topic_page = \<lparr>pageYOffset = 0, innerHeight = 600, postTitle_offsetTop = 80,
     postTitle_height = 40, topic_classList = {}, headings = [], toc_links = [],
     toc_height = 0, toc_scrollTo = []\<rparr>"

definition toc_page :: page where
  "toc_page = \<lparr>pageYOffset = 850, innerHeight = 600, postTitle_offsetTop = 80,
     postTitle_height = 40, topic_classList = {},
     headings = [\<lparr>hid = ''intro'', offsetTop = 0\<rparr>, \<lparr>hid = ''model'', offsetTop = 800\<rparr>,
                 \<lparr>hid = ''proofs'', offsetTop = 1600\<rparr>],
     toc_links = [\<lparr>href_id = Some ''intro'', href_attr = Some ''#intro'', link_offsetTop = 0, link_classList = {}\<rparr>,
                  \<lparr>href_id = Some ''model'', href_attr = Some ''#model'', link_offsetTop = 24, link_classList = {}\<rparr>,
                  \<lparr>href_id = Some ''proofs'', href_attr = Some ''#proofs'', link_offsetTop = 48, link_classList = {}\<rparr>],
     toc_height = 300, toc_scrollTo = []\<rparr>"

section \<open>Vocabulary for the proofs\<close>

text \<open>Two parts of the loop body, named: the heading the body settles on, and the page
  once the marker of the previously active link is gone.\<close>

definition pick :: "heading \<Rightarrow> heading option \<Rightarrow> heading" where
  "pick c a = (case a of None \<Rightarrow> c
     | Some b \<Rightarrow> if offsetTop c + spacing \<ge> offsetTop b - spacing then c else b)"

definition unmark :: "page \<Rightarrow> page" where
  "unmark d = (case querySelector_active d of None \<Rightarrow> d
     | Some beforeActiveEl \<Rightarrow> link_classList_remove beforeActiveEl activeClassName d)"

text \<open>The latest \<open>scrollTo\<close> of the panel is the one the loop body issues for the link of
  heading \<open>h\<close>.\<close>

definition panel_follows :: "heading \<Rightarrow> page \<Rightarrow> bool" where
  "panel_follows h d =
     (case querySelector_href (hid h) d of
        None \<Rightarrow> False
      | Some n \<Rightarrow> toc_scrollTo d \<noteq> [] \<and>
          last (toc_scrollTo d) =
            (if link_offsetTop (toc_links d ! n) \<ge> toc_height d - spacing
             then link_offsetTop (toc_links d ! n) + 100 - toc_height d else 0))"

text \<open>The pass run again and again on the page the previous pass left, the window not
  scrolling in between: \<open>toc_scan_n n\<close> is the scan of pass number \<open>n + 1\<close>.\<close>

fun toc_scan_n :: "nat \<Rightarrow> page \<Rightarrow> js_error + (heading option \<times> page)" where
  "toc_scan_n 0 d = toc_scan d"
| "toc_scan_n (Suc n) d =
     (case catalogueHighlight_pass d of Inl e \<Rightarrow> Inl e | Inr d' \<Rightarrow> toc_scan_n n d')"

section \<open>More concrete inputs\<close>


definition boundary_page :: page where
  "boundary_page = toc_page\<lparr>toc_height := 84\<rparr>"

definition top_page :: page where
  "top_page = toc_page\<lparr>pageYOffset := - 100\<rparr>"

text \<open>A page whose only heading has a space in its id, linked as \<open>href="#a b"\<close>: line 112
  yields the id \<open>a b\<close>, and the selector of line 135 asks for \<open>#a%20b\<close>.\<close>

definition spaced_page :: page where
  "spaced_page = toc_page\<lparr>headings := [\<lparr>hid = ''a b'', offsetTop = 0\<rparr>],
     toc_links := [\<lparr>href_id = Some ''a b'', href_attr = Some ''#a b'', link_offsetTop = 0,
                     link_classList = {}\<rparr>]\<rparr>"

text \<open>The links of \<open>toc_page\<close> after a pass that chose \<open>model\<close>.\<close>

definition model_active :: "toc_link list" where
  "model_active = [\<lparr>href_id = Some ''intro'', href_attr = Some ''#intro'', link_offsetTop = 0, link_classList = {}\<rparr>,
       \<lparr>href_id = Some ''model'', href_attr = Some ''#model'', link_offsetTop = 24, link_classList = {''is-active''}\<rparr>,
       \<lparr>href_id = Some ''proofs'', href_attr = Some ''#proofs'', link_offsetTop = 48, link_classList = {}\<rparr>]"

text \<open>Two scroll events 50 time units apart, then enough time for every timeout; a window
  at rest whose only observer is the recorder.\<close>

definition burst :: "input list" where
  "burst = [Scroll 1 10, Elapse 50, Scroll 2 20, Elapse 200]"

definition idle_window :: "params list window" where
  "idle_window = \<lparr>clock = 0, win_pageYOffset = 0, timeouts = [], observed = []\<rparr>"

text \<open>Three dispatches at offset 2000 on a page whose threshold is 120 and whose viewport
  is 600 high: the first after scrolling up from 2100, the next two without movement.\<close>

definition up_then_still :: "(int \<times> params) list" where
  "up_then_still = [(2000, \<lparr>event = 1, beforeOffsetY = 2100\<rparr>),
                    (2000, \<lparr>event = 2, beforeOffsetY = 2000\<rparr>),
                    (2000, \<lparr>event = 3, beforeOffsetY = 2000\<rparr>)]"

text \<open>The page after the first two of these dispatches: at offset 2000, the topic element
  carrying the flash marker alone.\<close>

definition flash_page :: page where
  "flash_page = topic_page\<lparr>pageYOffset := 2000,
     topic_classList := {''is-flash-scrollToTop-tips''}\<rparr>"

section \<open>Lemmas about the table of contents\<close>

lemma first_index_map:
  "first_index (\<lambda>l. f l = v) ls = first_index (\<lambda>x. x = v) (map f ls)"
  by (induction ls) simp_all

lemma first_index_None_iff: "first_index P xs = None \<longleftrightarrow> (\<forall>x\<in>set xs. \<not> P x)"
  by (induction xs) auto

lemma first_index_Some: "first_index P xs = Some n \<Longrightarrow> n < length xs \<and> P (xs ! n)"
  by (induction xs arbitrary: n) (auto split: if_splits)

lemma map_update_same: "f y = f (xs ! n) \<Longrightarrow> map f (xs[n := y]) = map f xs"
  by (cases "n < length xs") (auto simp: list_eq_iff_nth_eq nth_list_update)

lemma map_eq_nth: "map f xs = map f ys \<Longrightarrow> n < length ys \<Longrightarrow> f (xs ! n) = f (ys ! n)"
  by (metis length_map nth_map)

lemma querySelector_href_cong:
  "map href_attr (toc_links d1) = map href_attr (toc_links d2) \<Longrightarrow>
   querySelector_href i d1 = querySelector_href i d2"
  unfolding querySelector_href_def by (simp add: first_index_map [of href_attr])

lemma attr_remove [simp]:
  "map href_attr (toc_links (link_classList_remove n c d)) = map href_attr (toc_links d)"
  by (simp add: link_classList_remove_def map_update_same)

lemma attr_add [simp]:
  "map href_attr (toc_links (link_classList_add n c d)) = map href_attr (toc_links d)"
  by (simp add: link_classList_add_def map_update_same)

lemma href_remove [simp]:
  "map href_id (toc_links (link_classList_remove n c d)) = map href_id (toc_links d)"
  by (simp add: link_classList_remove_def map_update_same)

lemma href_add [simp]:
  "map href_id (toc_links (link_classList_add n c d)) = map href_id (toc_links d)"
  by (simp add: link_classList_add_def map_update_same)

lemma offs_remove [simp]:
  "map link_offsetTop (toc_links (link_classList_remove n c d)) = map link_offsetTop (toc_links d)"
  by (simp add: link_classList_remove_def map_update_same)

lemma offs_add [simp]:
  "map link_offsetTop (toc_links (link_classList_add n c d)) = map link_offsetTop (toc_links d)"
  by (simp add: link_classList_add_def map_update_same)

lemma toc_body_unfold:
  "toc_body c a d =
    (case querySelector_href (hid (pick c a)) d of
       None \<Rightarrow> Inl TypeError
     | Some n \<Rightarrow> Inr (pick c a,
         tocContainer_scrollTo
           (if link_offsetTop (toc_links d ! n) \<ge> toc_height d - spacing
            then link_offsetTop (toc_links d ! n) + 100 - toc_height d else 0)
           (link_classList_add n activeClassName (unmark d))))"
proof -
  have h: "querySelector_href i (unmark d) = querySelector_href i d" for i
    by (rule querySelector_href_cong) (simp add: unmark_def split: option.splits)
  have t: "toc_height (link_classList_add n activeClassName (unmark d)) = toc_height d" for n
    by (simp add: link_classList_add_def unmark_def link_classList_remove_def split: option.splits)
  have o: "link_offsetTop (toc_links (link_classList_add n activeClassName (unmark d)) ! n)
            = link_offsetTop (toc_links d ! n)" if "n < length (toc_links d)" for n
  proof -
    have "map link_offsetTop (toc_links (link_classList_add n activeClassName (unmark d)))
            = map link_offsetTop (toc_links d)"
      by (simp add: unmark_def split: option.splits)
    then show ?thesis using that by (rule map_eq_nth)
  qed
  show ?thesis
  proof (cases "querySelector_href (hid (pick c a)) d")
    case None
    then show ?thesis
      by (simp add: toc_body_def Let_def h pick_def [symmetric] unmark_def [symmetric])
  next
    case (Some n)
    then have "n < length (toc_links d)"
      by (auto simp: querySelector_href_def dest: first_index_Some)
    with Some show ?thesis
      by (simp add: toc_body_def Let_def h t o pick_def [symmetric] unmark_def [symmetric])
  qed
qed

lemma frame_after_body:
  "headings (tocContainer_scrollTo t (link_classList_add n c (unmark d))) = headings d"
  "pageYOffset (tocContainer_scrollTo t (link_classList_add n c (unmark d))) = pageYOffset d"
  "toc_height (tocContainer_scrollTo t (link_classList_add n c (unmark d))) = toc_height d"
  "map href_id (toc_links (tocContainer_scrollTo t (link_classList_add n c (unmark d))))
     = map href_id (toc_links d)"
  "map link_offsetTop (toc_links (tocContainer_scrollTo t (link_classList_add n c (unmark d))))
     = map link_offsetTop (toc_links d)"
  "toc_scrollTo (tocContainer_scrollTo t (link_classList_add n c (unmark d))) = toc_scrollTo d @ [t]"
  "map href_attr (toc_links (tocContainer_scrollTo t (link_classList_add n c (unmark d))))
     = map href_attr (toc_links d)"
  by (simp_all add: tocContainer_scrollTo_def link_classList_add_def unmark_def
        link_classList_remove_def map_update_same split: option.splits)

lemma toc_body_frame:
  assumes "toc_body c a d = Inr (a', d')"
  shows "a' = pick c a" "headings d' = headings d" "pageYOffset d' = pageYOffset d"
    "toc_height d' = toc_height d" "map href_id (toc_links d') = map href_id (toc_links d)"
    "map link_offsetTop (toc_links d') = map link_offsetTop (toc_links d)"
    "map href_attr (toc_links d') = map href_attr (toc_links d)"
  using assms by (auto simp: toc_body_unfold frame_after_body split: option.splits)

lemma toc_loop_frame:
  "toc_loop xs s a d = Inr (a', d') \<Longrightarrow>
     headings d' = headings d \<and> pageYOffset d' = pageYOffset d \<and> toc_height d' = toc_height d
     \<and> map href_id (toc_links d') = map href_id (toc_links d)
     \<and> map link_offsetTop (toc_links d') = map link_offsetTop (toc_links d)
     \<and> map href_attr (toc_links d') = map href_attr (toc_links d)"
proof (induction xs s a d rule: toc_loop.induct)
  case (1 s a d)
  then show ?case by simp
next
  case (2 rest s a d)
  then show ?case by simp
next
  case (3 c rest s a d)
  show ?case
  proof (cases "offsetTop c > s + spacing div 2")
    case True
    with 3 show ?thesis by simp
  next
    case False
    with "3.prems" obtain b e where b: "toc_body c a d = Inr (b, e)"
      and l: "toc_loop rest s (Some b) e = Inr (a', d')"
      by (auto split: sum.splits)
    from "3.IH"(2) [OF False b refl l] toc_body_frame [OF b] show ?thesis by simp
  qed
qed


lemma toc_loop_skip_all:
  "\<forall>e\<in>set xs. \<exists>h. e = Some h \<and> offsetTop h > s + spacing div 2 \<Longrightarrow>
   toc_loop xs s a d = Inr (a, d)"
  by (induction xs s a d rule: toc_loop.induct) auto

lemma contentTocList_cong:
  "map href_id ls1 = map href_id ls2 \<Longrightarrow> headings d1 = headings d2 \<Longrightarrow>
   contentTocList ls1 d1 = contentTocList ls2 d2"
proof (induction ls1 arbitrary: ls2)
  case Nil
  then show ?case by simp
next
  case (Cons l ls1)
  then obtain m ms where "ls2 = m # ms" by (cases ls2) auto
  with Cons show ?case by (auto simp: getElementById_def split: option.splits)
qed

lemma toc_loop_indep:
  "map href_attr (toc_links d1) = map href_attr (toc_links d2) \<Longrightarrow>
   toc_loop xs s a d1 = Inr (a', e1) \<Longrightarrow> \<exists>e2. toc_loop xs s a d2 = Inr (a', e2)"
proof (induction xs arbitrary: a d1 d2)
  case Nil
  then show ?case by simp
next
  case (Cons x xs)
  show ?case
  proof (cases x)
    case None
    with Cons.prems show ?thesis by simp
  next
    case (Some c)
    show ?thesis
    proof (cases "offsetTop c > s + spacing div 2")
      case True
      with Some Cons show ?thesis by simp
    next
      case False
      with Some Cons.prems obtain b f1 where b: "toc_body c a d1 = Inr (b, f1)"
        and l: "toc_loop xs s (Some b) f1 = Inr (a', e1)"
        by (auto split: sum.splits)
      from b obtain n where n: "querySelector_href (hid (pick c a)) d1 = Some n"
        by (auto simp: toc_body_unfold split: option.splits)
      then have n2: "querySelector_href (hid (pick c a)) d2 = Some n"
        using querySelector_href_cong [OF Cons.prems(1)] by simp
      then obtain f2 where b2: "toc_body c a d2 = Inr (pick c a, f2)"
        by (simp add: toc_body_unfold)
      have "map href_attr (toc_links f1) = map href_attr (toc_links f2)"
        using toc_body_frame(7) [OF b] toc_body_frame(7) [OF b2] Cons.prems(1) by simp
      from Cons.IH [OF this l] obtain e2 where "toc_loop xs s (Some b) f2 = Inr (a', e2)" ..
      with Some False b2 toc_body_frame(1) [OF b] show ?thesis by simp
    qed
  qed
qed

lemma toc_scan_idem: "toc_scan d = Inr (a, d') \<Longrightarrow> \<exists>d''. toc_scan d' = Inr (a, d'')"
proof -
  assume r: "toc_scan d = Inr (a, d')"
  then have l: "toc_loop (contentTocList (toc_links d) d) (pageYOffset d) None d = Inr (a, d')"
    by (simp add: toc_scan_def)
  note f = toc_loop_frame [OF l]
  have c: "contentTocList (toc_links d') d' = contentTocList (toc_links d) d"
    using f by (intro contentTocList_cong) simp_all
  from f have "map href_attr (toc_links d) = map href_attr (toc_links d')" by simp
  from toc_loop_indep [OF this l] show ?thesis
    using f by (simp add: toc_scan_def c)
qed

lemma toc_body_panel:
  assumes "toc_body c a d = Inr (b, f)"
  shows "panel_follows b f"
proof -
  from assms obtain n where n: "querySelector_href (hid b) d = Some n"
    and f: "f = tocContainer_scrollTo
       (if link_offsetTop (toc_links d ! n) \<ge> toc_height d - spacing
        then link_offsetTop (toc_links d ! n) + 100 - toc_height d else 0)
       (link_classList_add n activeClassName (unmark d))"
    by (auto simp: toc_body_unfold split: option.splits)
  from n have len: "n < length (toc_links d)"
    by (auto simp: querySelector_href_def dest: first_index_Some)
  have q: "querySelector_href (hid b) f = Some n"
    using n querySelector_href_cong [of f d "hid b"] by (simp add: f frame_after_body)
  have o: "link_offsetTop (toc_links f ! n) = link_offsetTop (toc_links d ! n)"
    using len by (intro map_eq_nth) (simp_all add: f frame_after_body)
  have "toc_scrollTo f \<noteq> []" "toc_height f = toc_height d"
    "last (toc_scrollTo f) = (if link_offsetTop (toc_links d ! n) \<ge> toc_height d - spacing
        then link_offsetTop (toc_links d ! n) + 100 - toc_height d else 0)"
    by (simp_all add: f frame_after_body)
  with q o show ?thesis by (simp add: panel_follows_def)
qed

lemma toc_loop_panel:
  assumes "toc_loop xs s a d = Inr (Some h, d')"
    and "\<forall>b. a = Some b \<longrightarrow> panel_follows b d"
  shows "panel_follows h d'"
  using assms
proof (induction xs arbitrary: a d)
  case Nil
  then show ?case by simp
next
  case (Cons x xs)
  show ?case
  proof (cases x)
    case None
    with Cons.prems show ?thesis by simp
  next
    case (Some c)
    show ?thesis
    proof (cases "offsetTop c > s + spacing div 2")
      case True
      with Some Cons.prems have "toc_loop xs s a d = Inr (Some h, d')" by simp
      from Cons.IH [OF this Cons.prems(2)] show ?thesis .
    next
      case False
      with Some Cons.prems obtain b f where b: "toc_body c a d = Inr (b, f)"
        and l: "toc_loop xs s (Some b) f = Inr (Some h, d')"
        by (auto split: sum.splits)
      from toc_body_panel [OF b] have "\<forall>b'. Some b = Some b' \<longrightarrow> panel_follows b' f" by simp
      from Cons.IH [OF l this] show ?thesis .
    qed
  qed
qed

text \<open>For headings in nondecreasing order of offset, a scan that returns has chosen the
  last candidate.\<close>

lemma toc_loop_sorted:
  assumes "toc_loop (map Some hs) s a d = Inr (a', d')"
    and "sorted (map offsetTop hs)"
    and "\<forall>b. a = Some b \<longrightarrow> (\<forall>h\<in>set hs. offsetTop b \<le> offsetTop h)"
  shows "a' = (if filter (\<lambda>h. offsetTop h \<le> s + spacing div 2) hs = [] then a
               else Some (last (filter (\<lambda>h. offsetTop h \<le> s + spacing div 2) hs)))"
  using assms
proof (induction hs arbitrary: a d)
  case Nil
  then show ?case by simp
next
  case (Cons h hs)
  from Cons.prems(2) have srt: "sorted (map offsetTop hs)"
    and le: "\<forall>k\<in>set hs. offsetTop h \<le> offsetTop k" by simp_all
  show ?case
  proof (cases "offsetTop h > s + spacing div 2")
    case True
    with Cons.prems(1) have l: "toc_loop (map Some hs) s a d = Inr (a', d')" by simp
    from Cons.prems(3) have "\<forall>b. a = Some b \<longrightarrow> (\<forall>k\<in>set hs. offsetTop b \<le> offsetTop k)"
      by simp
    from Cons.IH [OF l srt this] True show ?thesis by simp
  next
    case False
    with Cons.prems(1) obtain b f where b: "toc_body h a d = Inr (b, f)"
      and l: "toc_loop (map Some hs) s (Some b) f = Inr (a', d')"
      by (auto split: sum.splits)
    have "pick h a = h"
      using Cons.prems(3) by (auto simp: pick_def spacing_def split: option.splits)
    with toc_body_frame(1) [OF b] have bh: "b = h" by simp
    from le have "\<forall>c. Some h = Some c \<longrightarrow> (\<forall>k\<in>set hs. offsetTop c \<le> offsetTop k)" by simp
    from Cons.IH [OF l [unfolded bh] srt this] False show ?thesis by simp
  qed
qed

text \<open>The choice of the scan does not depend on the class lists of the links or on the
  panel; and the loop returns when every entry is a heading and the selector finds a link
  for every candidate.\<close>

lemma toc_scan_markers_irrelevant:
  assumes "headings e = headings d" and "pageYOffset e = pageYOffset d"
    and "map href_id (toc_links e) = map href_id (toc_links d)"
    and "map href_attr (toc_links e) = map href_attr (toc_links d)"
    and "toc_scan d = Inr (a, d')"
  shows "\<exists>e'. toc_scan e = Inr (a, e')"
proof -
  have c: "contentTocList (toc_links e) e = contentTocList (toc_links d) d"
    using assms(1,3) by (intro contentTocList_cong) simp_all
  from assms(5) have "toc_loop (contentTocList (toc_links d) d) (pageYOffset d) None d = Inr (a, d')"
    by (simp add: toc_scan_def)
  from toc_loop_indep [OF assms(4) [symmetric] this] show ?thesis
    by (simp add: toc_scan_def c assms(2))
qed

lemma toc_loop_returns:
  assumes "\<forall>x\<in>set xs. \<exists>h. x = Some h \<and>
             (offsetTop h \<le> s + spacing div 2 \<longrightarrow> querySelector_href (hid h) d \<noteq> None)"
    and "\<forall>b. a = Some b \<longrightarrow> querySelector_href (hid b) d \<noteq> None"
  shows "\<exists>a' d'. toc_loop xs s a d = Inr (a', d')"
  using assms
proof (induction xs arbitrary: a d)
  case Nil
  then show ?case by simp
next
  case (Cons x xs)
  from Cons.prems(1) obtain c where x: "x = Some c"
    and lc: "offsetTop c \<le> s + spacing div 2 \<longrightarrow> querySelector_href (hid c) d \<noteq> None"
    by auto
  from Cons.prems(1) have rest: "\<forall>x\<in>set xs. \<exists>h. x = Some h \<and>
             (offsetTop h \<le> s + spacing div 2 \<longrightarrow> querySelector_href (hid h) d \<noteq> None)"
    by simp
  show ?case
  proof (cases "offsetTop c > s + spacing div 2")
    case True
    from Cons.IH [OF rest Cons.prems(2)] True x show ?thesis by simp
  next
    case False
    have found: "querySelector_href (hid (pick c a)) d \<noteq> None"
      using lc False Cons.prems(2) by (auto simp: pick_def split: option.splits)
    then obtain f where b: "toc_body c a d = Inr (pick c a, f)"
      by (auto simp: toc_body_unfold)
    have q: "querySelector_href i f = querySelector_href i d" for i
      by (rule querySelector_href_cong) (rule toc_body_frame(7) [OF b])
    have 1: "\<forall>x\<in>set xs. \<exists>h. x = Some h \<and>
             (offsetTop h \<le> s + spacing div 2 \<longrightarrow> querySelector_href (hid h) f \<noteq> None)"
      using rest by (simp only: q)
    have 2: "\<forall>b. Some (pick c a) = Some b \<longrightarrow> querySelector_href (hid b) f \<noteq> None"
      using found by (simp add: q)
    from Cons.IH [OF 1 2] b False x show ?thesis by simp
  qed
qed

lemma toc_scan_returns:
  assumes "\<forall>x\<in>set (contentTocList (toc_links d) d).
             \<exists>h. x = Some h \<and> querySelector_href (hid h) d \<noteq> None"
  shows "\<exists>a d'. toc_scan d = Inr (a, d')"
proof -
  from assms have "\<forall>x\<in>set (contentTocList (toc_links d) d). \<exists>h. x = Some h \<and>
       (offsetTop h \<le> pageYOffset d + spacing div 2 \<longrightarrow> querySelector_href (hid h) d \<noteq> None)"
    by blast
  from toc_loop_returns [OF this, of None] show ?thesis
    by (simp add: toc_scan_def)
qed

section \<open>Lemmas about the topic bar\<close>

text \<open>The class list after each branch of \<open>showTopic\<close>; outside the branch for no movement
  met with the flash marker and without the tip marker, exactly one marker is left.\<close>

lemmas topic_eval = showTopic_def Let_def classList_remove_def classList_add_def
  classList_contains_def topic_markers_def

lemma showTopic_hidden:
  "\<not> pageYOffset d > postTitle_offsetTop d + postTitle_height d \<Longrightarrow>
   topic_classList (showTopic evt d) = insert ''is-hidden-topic-bar'' (topic_classList d - topic_markers)"
  by (auto simp: topic_eval)

lemma showTopic_scrolled_down:
  "pageYOffset d > postTitle_offsetTop d + postTitle_height d \<Longrightarrow>
   beforeOffsetY p - pageYOffset d < 0 \<Longrightarrow>
   topic_classList (showTopic (Some p) d) = insert ''is-show-post-title'' (topic_classList d - topic_markers)"
  by (auto simp: topic_eval)

lemma showTopic_no_snapshot:
  "pageYOffset d > postTitle_offsetTop d + postTitle_height d \<Longrightarrow>
   topic_classList (showTopic None d) = insert ''is-show-post-title'' (topic_classList d - topic_markers)"
  by (auto simp: topic_eval)

text \<open>The class list after a dispatch without movement: the tip marker becomes the flash
  marker; without the tip marker \<open>immediately-show\<close> is added and a flash marker already
  there stays.\<close>

lemma showTopic_no_movement:
  assumes "pageYOffset d > postTitle_offsetTop d + postTitle_height d"
    and "beforeOffsetY p - pageYOffset d = 0"
  shows "topic_classList (showTopic (Some p) d) =
          (if ''is-show-scrollToTop-tips'' \<in> topic_classList d
           then insert ''is-flash-scrollToTop-tips'' (topic_classList d - topic_markers)
           else insert ''immediately-show''
                  (topic_classList d - (topic_markers - {''is-flash-scrollToTop-tips''})))"
  using assms by (auto simp: topic_eval)

lemma marker_alone: "m \<in> M \<Longrightarrow> insert m (S - M) \<inter> M = {m}"
  by auto

lemma showTopic_single_marker:
  assumes "\<not> (pageYOffset d > postTitle_offsetTop d + postTitle_height d
              \<and> map_option beforeOffsetY evt = Some (pageYOffset d)
              \<and> ''is-show-scrollToTop-tips'' \<notin> topic_classList d
              \<and> ''is-flash-scrollToTop-tips'' \<in> topic_classList d)"
  shows "\<exists>m. topic_classList (showTopic evt d) \<inter> topic_markers = {m}"
proof (cases "pageYOffset d > postTitle_offsetTop d + postTitle_height d")
  case False
  have m: "''is-hidden-topic-bar'' \<in> topic_markers" by (simp add: topic_markers_def)
  show ?thesis
    unfolding showTopic_hidden [OF False] using marker_alone [OF m] by (rule exI)
next
  case above: True
  show ?thesis
  proof (cases evt)
    case None
    have m: "''is-show-post-title'' \<in> topic_markers" by (simp add: topic_markers_def)
    show ?thesis
      unfolding None showTopic_no_snapshot [OF above] using marker_alone [OF m] by (rule exI)
  next
    case (Some p)
    consider (down) "beforeOffsetY p - pageYOffset d < 0"
      | (still) "beforeOffsetY p - pageYOffset d = 0"
      | (up) "beforeOffsetY p - pageYOffset d > 0" by linarith
    then show ?thesis
    proof cases
      case down
      have m: "''is-show-post-title'' \<in> topic_markers" by (simp add: topic_markers_def)
      show ?thesis
        unfolding Some showTopic_scrolled_down [OF above down] using marker_alone [OF m] by (rule exI)
    next
      case still
      show ?thesis
      proof (cases "''is-show-scrollToTop-tips'' \<in> topic_classList d")
        case True
        with above still have "topic_classList (showTopic (Some p) d)
            = insert ''is-flash-scrollToTop-tips'' (topic_classList d - topic_markers)"
          by (auto simp: topic_eval)
        moreover have "''is-flash-scrollToTop-tips'' \<in> topic_markers"
          by (simp add: topic_markers_def)
        ultimately show ?thesis unfolding Some by (auto intro: marker_alone)
      next
        case False
        with assms above still Some have "''is-flash-scrollToTop-tips'' \<notin> topic_classList d"
          by simp
        with False above still have "topic_classList (showTopic (Some p) d)
            = insert ''immediately-show'' (topic_classList d - topic_markers)"
          by (auto simp: topic_eval)
        moreover have "''immediately-show'' \<in> topic_markers"
          by (simp add: topic_markers_def)
        ultimately show ?thesis unfolding Some by (auto intro: marker_alone)
      qed
    next
      case up
      show ?thesis
      proof (cases "pageYOffset d > innerHeight d * 2")
        case True
        with above up have "topic_classList (showTopic (Some p) d)
            = insert ''is-show-scrollToTop-tips'' (topic_classList d - topic_markers)"
          by (auto simp: topic_eval)
        moreover have "''is-show-scrollToTop-tips'' \<in> topic_markers"
          by (simp add: topic_markers_def)
        ultimately show ?thesis unfolding Some by (auto intro: marker_alone)
      next
        case False
        with above up have "topic_classList (showTopic (Some p) d)
            = insert ''is-switch-post-title'' (topic_classList d - topic_markers)"
          by (auto simp: topic_eval)
        moreover have "''is-switch-post-title'' \<in> topic_markers"
          by (simp add: topic_markers_def)
        ultimately show ?thesis unfolding Some by (auto intro: marker_alone)
      qed
    qed
  qed
qed

section \<open>Lemmas about the listener\<close>

lemma scroll_listener_enqueues:
  "timeouts (scroll_listener ev w) =
     timeouts w @ [\<lparr>fire_at = clock w + 150, t_event = ev, t_beforeOffsetY = win_pageYOffset w\<rparr>]"
  by (simp add: scroll_listener_def setTimeout_def)

text \<open>The definitions a pass unfolds to when it is evaluated on a concrete page.\<close>

lemmas toc_eval = toc_scan_def getElementById_def toc_body_def Let_def
  querySelector_active_def querySelector_href_def link_classList_remove_def
  link_classList_add_def tocContainer_scrollTo_def spacing_def activeClassName_def
  catalogueHighlight_pass_def uri_unescaped_def hex_digit_def

text \<open>A heading id with a space: the heading resolves, the selector finds no link for
  it, and \<open>direc.classList\<close> throws.\<close>

lemma selector_misses_spaced_id:
  "contentTocList (toc_links spaced_page) spaced_page = [Some \<lparr>hid = ''a b'', offsetTop = 0\<rparr>]
   \<and> encodeURI ''a b'' = ''a%20b''
   \<and> querySelector_href ''a b'' spaced_page = None
   \<and> catalogueHighlight_pass spaced_page = Inl TypeError"
  by (simp add: toc_eval toc_page_def spaced_page_def)

section \<open>The claims\<close>

text \<open>
  C1. The specification says that a burst of scroll notifications arriving within one
  quiet period of 150 time units produces exactly one dispatch, later notifications being
  dropped while a batch is pending. The listener declares \<open>wait\<close> inside its own body, so
  the test \<open>if (wait) return\<close> never holds and every notification sets its own timeout.
  Evaluated on two notifications 50 time units apart: the recorder is called twice, once
  with the offset of each notification.
\<close>

theorem bindScrollEvent_burst_dispatches_twice:
  "observed (window_run \<lparr>callbacks = [recorder]\<rparr> burst idle_window)
     = [\<lparr>event = 1, beforeOffsetY = 10\<rparr>, \<lparr>event = 2, beforeOffsetY = 20\<rparr>]"
  by (simp add: window_run_def burst_def idle_window_def scroll_listener_def setTimeout_def
      fire_due_def dispatch_def recorder_def Let_def)

text \<open>
  C2. The specification says that after every \<open>showTopic\<close> transition at most one of the
  six markers is on the topic element. On the branch for no movement \<open>showTopic\<close> never
  removes \<open>is-flash-scrollToTop-tips\<close>, which every other branch removes. Evaluated from an
  element without markers: after scrolling up beyond twice the viewport and two dispatches
  without movement, the flash marker and \<open>immediately-show\<close> are both present.
\<close>

theorem showTopic_flash_marker_survives:
  "topic_classList (showTopic_run up_then_still topic_page) \<inter> topic_markers
     = {''immediately-show'', ''is-flash-scrollToTop-tips''}
   \<and> card (topic_classList (showTopic_run up_then_still topic_page) \<inter> topic_markers) = 2"
  by (simp add: up_then_still_def topic_page_def topic_eval)




text \<open>
  C4. For a snapshot with the current offset above the threshold and a positive
  difference \<open>beforeOffsetY - pageYOffset\<close> (scrolled up): when the current offset exceeds
  twice the viewport height the element ends with \<open>is-show-scrollToTop-tips\<close> as its only
  marker, otherwise with \<open>is-switch-post-title\<close> as its only marker. Classes that are not
  markers are left as they were.
\<close>

theorem showTopic_scrolled_up:
  assumes "pageYOffset d > postTitle_offsetTop d + postTitle_height d"
    and "beforeOffsetY p - pageYOffset d > 0"
  shows "topic_classList (showTopic (Some p) d) =
          (if pageYOffset d > 2 * innerHeight d
           then insert ''is-show-scrollToTop-tips'' (topic_classList d - topic_markers)
           else insert ''is-switch-post-title'' (topic_classList d - topic_markers))"
  using assms by (auto simp: topic_eval)

theorem showTopic_scrolled_up_witness:
  "pageYOffset (topic_page\<lparr>pageYOffset := 2000\<rparr>)
     > postTitle_offsetTop (topic_page\<lparr>pageYOffset := 2000\<rparr>)
       + postTitle_height (topic_page\<lparr>pageYOffset := 2000\<rparr>)
   \<and> beforeOffsetY \<lparr>event = 1, beforeOffsetY = 2100\<rparr>
       - pageYOffset (topic_page\<lparr>pageYOffset := 2000\<rparr>) > 0
   \<and> topic_classList (showTopic (Some \<lparr>event = 1, beforeOffsetY = 2100\<rparr>)
        (topic_page\<lparr>pageYOffset := 2000\<rparr>)) = {''is-show-scrollToTop-tips''}"
proof -
  have a: "pageYOffset (topic_page\<lparr>pageYOffset := 2000\<rparr>)
     > postTitle_offsetTop (topic_page\<lparr>pageYOffset := 2000\<rparr>)
       + postTitle_height (topic_page\<lparr>pageYOffset := 2000\<rparr>)"
    by (simp add: topic_page_def)
  have b: "beforeOffsetY \<lparr>event = 1, beforeOffsetY = 2100\<rparr>
       - pageYOffset (topic_page\<lparr>pageYOffset := 2000\<rparr>) > 0"
    by simp
  from a b showTopic_scrolled_up [OF a b] show ?thesis
    by (simp add: topic_page_def)
qed

text \<open>
  C5. The specification says that a dispatch above the threshold and without movement
  turns the tip marker into the flash marker, and moves an element without the tip marker
  to the state shown immediately, whose marker is \<open>immediately-show\<close>. The first half
  holds. For the second, the branch for no movement never removes
  \<open>is-flash-scrollToTop-tips\<close> (the missing removal of C2): evaluated on \<open>flash_page\<close>,
  the page the first two dispatches of \<open>up_then_still\<close> leave, where the tip marker is
  absent, the element ends with the flash marker beside \<open>immediately-show\<close>.
\<close>

theorem showTopic_no_movement_keeps_flash:
  "flash_page = showTopic_run [(2000, \<lparr>event = 1, beforeOffsetY = 2100\<rparr>),
                               (2000, \<lparr>event = 2, beforeOffsetY = 2000\<rparr>)] topic_page
   \<and> pageYOffset flash_page > postTitle_offsetTop flash_page + postTitle_height flash_page
   \<and> beforeOffsetY \<lparr>event = 3, beforeOffsetY = 2000\<rparr> - pageYOffset flash_page = 0
   \<and> ''is-show-scrollToTop-tips'' \<notin> topic_classList flash_page
   \<and> topic_classList (showTopic (Some \<lparr>event = 3, beforeOffsetY = 2000\<rparr>) flash_page)
         \<inter> topic_markers
       = {''immediately-show'', ''is-flash-scrollToTop-tips''}"
  by (simp add: flash_page_def topic_page_def topic_eval)

text \<open>
  C6. Three headings at offsets 0, 800 and 1600, spacing 60, scroll offset 850: the scan
  returns the heading at 800 and its link is the one marked active. The heading at 1600
  is beyond \<open>850 + 30\<close>, and for the heading at 800 the comparison with the earlier
  choice, \<open>800 + 60 \<ge> 0 - 60\<close>, holds.
\<close>

theorem catalogueHighlight_three_headings:
  "toc_scan toc_page =
     Inr (Some \<lparr>hid = ''model'', offsetTop = 800\<rparr>,
          toc_page\<lparr>toc_links := model_active, toc_scrollTo := [0, 0]\<rparr>)
   \<and> map offsetTop (headings toc_page) = [0, 800, 1600]
   \<and> pageYOffset toc_page = 850
   \<and> 1600 > pageYOffset toc_page + spacing div 2
   \<and> 800 + spacing \<ge> 0 - spacing"
  by (simp add: toc_eval toc_page_def model_active_def)

text \<open>
  C7, as the specification states it: the panel is scrolled to
  \<open>linkOffset + 100 - panelHeight\<close> only when the link's offset exceeds the panel height
  minus 60, and reset to 0 otherwise. On \<open>boundary_page\<close> the active link's offset is 24
  and the panel height is 84: the offset does not exceed \<open>84 - 60\<close>, and the panel is
  scrolled to 40 all the same.
\<close>

theorem catalogueHighlight_panel_boundary_counterexample:
  "\<not> link_offsetTop (toc_links boundary_page ! 1) > toc_height boundary_page - 60
   \<and> toc_scan boundary_page =
       Inr (Some \<lparr>hid = ''model'', offsetTop = 800\<rparr>,
            boundary_page\<lparr>toc_links := model_active, toc_scrollTo := [0, 40]\<rparr>)
   \<and> querySelector_href ''model'' (boundary_page\<lparr>toc_links := model_active, toc_scrollTo := [0, 40]\<rparr>)
       = Some 1
   \<and> last [0, 40] \<noteq> (0::int)"
  by (simp add: toc_eval toc_page_def model_active_def boundary_page_def)

text \<open>
  C7, amended: after every pass that selects an active heading, the latest \<open>scrollTo\<close> of
  the panel has target \<open>linkOffset + 100 - panelHeight\<close> if the active link's offset is
  at least the panel height minus 60, and target 0 otherwise.
\<close>

theorem catalogueHighlight_panel_scroll:
  assumes "toc_scan d = Inr (Some h, d')"
  shows "\<exists>n. querySelector_href (hid h) d' = Some n \<and> toc_scrollTo d' \<noteq> [] \<and>
           last (toc_scrollTo d') =
             (if link_offsetTop (toc_links d' ! n) \<ge> toc_height d' - 60
              then link_offsetTop (toc_links d' ! n) + 100 - toc_height d' else 0)"
proof -
  have "panel_follows h d'"
    using toc_loop_panel [of "contentTocList (toc_links d) d" "pageYOffset d" None d h d'] assms
    by (simp add: toc_scan_def)
  then show ?thesis
    by (auto simp: panel_follows_def spacing_def split: option.splits)
qed

theorem catalogueHighlight_panel_scroll_witness:
  "toc_scan boundary_page =
     Inr (Some \<lparr>hid = ''model'', offsetTop = 800\<rparr>,
          boundary_page\<lparr>toc_links := model_active, toc_scrollTo := [0, 40]\<rparr>)
   \<and> (\<exists>n. querySelector_href ''model''
             (boundary_page\<lparr>toc_links := model_active, toc_scrollTo := [0, 40]\<rparr>) = Some n
        \<and> last [0, 40] = link_offsetTop (model_active ! n) + 100 - toc_height boundary_page)"
proof -
  have h: "toc_scan boundary_page =
     Inr (Some \<lparr>hid = ''model'', offsetTop = 800\<rparr>,
          boundary_page\<lparr>toc_links := model_active, toc_scrollTo := [0, 40]\<rparr>)"
    by (simp add: toc_eval toc_page_def model_active_def boundary_page_def)
  from catalogueHighlight_panel_scroll [OF h] obtain n where
    "querySelector_href ''model''
       (boundary_page\<lparr>toc_links := model_active, toc_scrollTo := [0, 40]\<rparr>) = Some n" by auto
  then have "querySelector_href ''model''
       (boundary_page\<lparr>toc_links := model_active, toc_scrollTo := [0, 40]\<rparr>) = Some n
     \<and> last [0, 40] = link_offsetTop (model_active ! n) + 100 - toc_height boundary_page"
    by (auto simp: toc_eval toc_page_def model_active_def boundary_page_def split: if_splits)
  with h show ?thesis by blast
qed

text \<open>
  C8. With the scroll offset and the headings unchanged, every further pass chooses the
  heading the first pass chose: the choice is computed from the headings the links lead
  to and the scroll offset, and the \<open>is-active\<close> markers and panel scrolls left by earlier
  passes play no part in it.
\<close>

theorem catalogueHighlight_repeat_same_heading:
  "toc_scan d = Inr (a, d') \<Longrightarrow> \<exists>d''. toc_scan_n n d = Inr (a, d'')"
proof (induction n arbitrary: d d')
  case 0
  then show ?case by simp
next
  case (Suc n)
  from toc_scan_idem [OF Suc.prems] obtain d'' where "toc_scan d' = Inr (a, d'')" ..
  from Suc.IH [OF this] Suc.prems show ?case
    by (simp add: catalogueHighlight_pass_def)
qed

theorem catalogueHighlight_repeat_same_heading_witness:
  "toc_scan toc_page =
     Inr (Some \<lparr>hid = ''model'', offsetTop = 800\<rparr>,
          toc_page\<lparr>toc_links := model_active, toc_scrollTo := [0, 0]\<rparr>)
   \<and> (\<exists>d''. toc_scan_n 2 toc_page = Inr (Some \<lparr>hid = ''model'', offsetTop = 800\<rparr>, d''))"
proof -
  have h: "toc_scan toc_page =
     Inr (Some \<lparr>hid = ''model'', offsetTop = 800\<rparr>,
          toc_page\<lparr>toc_links := model_active, toc_scrollTo := [0, 0]\<rparr>)"
    by (simp add: toc_eval toc_page_def model_active_def)
  from h catalogueHighlight_repeat_same_heading [OF h, of 2] show ?thesis by simp
qed

text \<open>
  C9. When every entry of the scan is a heading whose offset exceeds the scroll offset
  plus half the spacing, the pass returns the page exactly as it received it: no marker
  is moved and the panel is not scrolled.
\<close>

theorem catalogueHighlight_no_candidate_no_change:
  "\<forall>e\<in>set (contentTocList (toc_links d) d).
      \<exists>h. e = Some h \<and> offsetTop h > pageYOffset d + spacing div 2
   \<Longrightarrow> catalogueHighlight_pass d = Inr d"
  by (simp add: catalogueHighlight_pass_def toc_scan_def toc_loop_skip_all)

theorem catalogueHighlight_no_candidate_no_change_witness:
  "map (map_option offsetTop) (contentTocList (toc_links top_page) top_page)
     = [Some 0, Some 800, Some 1600]
   \<and> pageYOffset top_page + spacing div 2 = - 70
   \<and> catalogueHighlight_pass top_page = Inr top_page"
proof -
  have c: "contentTocList (toc_links top_page) top_page
     = [Some \<lparr>hid = ''intro'', offsetTop = 0\<rparr>, Some \<lparr>hid = ''model'', offsetTop = 800\<rparr>,
        Some \<lparr>hid = ''proofs'', offsetTop = 1600\<rparr>]"
    by (simp add: top_page_def toc_page_def getElementById_def)
  have y: "pageYOffset top_page + spacing div 2 = - 70"
    by (simp add: top_page_def toc_page_def spacing_def)
  have h: "\<forall>e\<in>set (contentTocList (toc_links top_page) top_page).
       \<exists>h. e = Some h \<and> offsetTop h > pageYOffset top_page + spacing div 2"
    unfolding c y by simp
  from c y catalogueHighlight_no_candidate_no_change [OF h] show ?thesis by simp
qed

text \<open>
  C10. When the links resolve to headings whose offsets are nondecreasing in document
  order, the scan chooses what plain last-candidate selection chooses: every pass that
  returns has chosen the last heading whose offset is at most the scroll offset plus half
  the spacing, or none when there is no such heading; the hysteresis test rejects
  nothing. The pass returns whenever the selector of line 135 finds a link for each such
  heading.
\<close>

theorem catalogueHighlight_sorted_last_candidate:
  assumes "sorted (map offsetTop hs)" and "contentTocList (toc_links d) d = map Some hs"
  shows "(\<forall>a d'. toc_scan d = Inr (a, d') \<longrightarrow> a = last_candidate (pageYOffset d) hs)
       \<and> ((\<forall>h\<in>set hs. offsetTop h \<le> pageYOffset d + spacing div 2
                    \<longrightarrow> querySelector_href (hid h) d \<noteq> None)
          \<longrightarrow> (\<exists>d'. toc_scan d = Inr (last_candidate (pageYOffset d) hs, d')))"
proof -
  have choice: "a = last_candidate (pageYOffset d) hs" if "toc_scan d = Inr (a, d')" for a d'
  proof -
    from that have "toc_loop (map Some hs) (pageYOffset d) None d = Inr (a, d')"
      by (simp add: toc_scan_def assms(2))
    from toc_loop_sorted [OF this assms(1)] show ?thesis
      by (auto simp: last_candidate_def split: list.splits)
  qed
  have returns: "\<exists>d'. toc_scan d = Inr (last_candidate (pageYOffset d) hs, d')"
    if "\<forall>h\<in>set hs. offsetTop h \<le> pageYOffset d + spacing div 2
                    \<longrightarrow> querySelector_href (hid h) d \<noteq> None"
  proof -
    from that have "\<forall>x\<in>set (map Some hs). \<exists>h. x = Some h \<and>
        (offsetTop h \<le> pageYOffset d + spacing div 2 \<longrightarrow> querySelector_href (hid h) d \<noteq> None)"
      by auto
    from toc_loop_returns [OF this, of None] obtain a d'
      where r: "toc_scan d = Inr (a, d')" by (auto simp: toc_scan_def assms(2))
    with choice [OF r] show ?thesis by blast
  qed
  from choice returns show ?thesis by blast
qed

theorem catalogueHighlight_sorted_last_candidate_witness:
  "sorted (map offsetTop (headings toc_page))
   \<and> contentTocList (toc_links toc_page) toc_page = map Some (headings toc_page)
   \<and> map (\<lambda>h. querySelector_href (hid h) toc_page) (headings toc_page) = [Some 0, Some 1, Some 2]
   \<and> (\<exists>d'. toc_scan toc_page = Inr (last_candidate (pageYOffset toc_page) (headings toc_page), d'))
   \<and> last_candidate (pageYOffset toc_page) (headings toc_page)
       = Some \<lparr>hid = ''model'', offsetTop = 800\<rparr>"
proof -
  have s: "sorted (map offsetTop (headings toc_page))"
    by (simp add: toc_page_def)
  have c: "contentTocList (toc_links toc_page) toc_page = map Some (headings toc_page)"
    by (simp add: toc_page_def getElementById_def)
  have q: "map (\<lambda>h. querySelector_href (hid h) toc_page) (headings toc_page)
             = [Some 0, Some 1, Some 2]"
    by (simp add: toc_page_def querySelector_href_def uri_unescaped_def)
  have l: "last_candidate (pageYOffset toc_page) (headings toc_page)
             = Some \<lparr>hid = ''model'', offsetTop = 800\<rparr>"
    by (simp add: toc_page_def last_candidate_def spacing_def)
  have f: "\<forall>h\<in>set (headings toc_page). offsetTop h \<le> pageYOffset toc_page + spacing div 2
                    \<longrightarrow> querySelector_href (hid h) toc_page \<noteq> None"
    by (simp add: toc_page_def querySelector_href_def uri_unescaped_def)
  from catalogueHighlight_sorted_last_candidate [OF s c] f
  have "\<exists>d'. toc_scan toc_page = Inr (last_candidate (pageYOffset toc_page) (headings toc_page), d')"
    by blast
  with s c q l show ?thesis by simp
qed

end
